theory Spec2Isabelle
  imports Main
begin

section \<open>The SLCAN codec of canbus.js\<close>

text \<open>
  A shallow embedding of \<^verbatim>\<open>canbus.frame\<close>, \<^verbatim>\<open>canbus.slcan.prototype._packFrame\<close>,
  \<^verbatim>\<open>canbus.slcan.prototype._parseFrame\<close> and
  \<^verbatim>\<open>canbus.slcan.prototype._serialRecvCallback\<close> of \<^verbatim>\<open>canbusjs/src/canbus.js\<close>.

  A JavaScript string is modelled as a \<open>string\<close>, a list of 8-bit characters. The
  receive path builds its strings with \<^verbatim>\<open>String.fromCharCode\<close> from the elements of a
  \<^verbatim>\<open>Uint8Array\<close>, so every character the decoder hands to the parser has a code
  in 0..255, and the encoder writes ASCII only. A JavaScript exception is a value of
  \<open>error\<close> on the left of a sum; \<^verbatim>\<open>NaN\<close> is \<open>None\<close>; \<^verbatim>\<open>undefined\<close> in an optional
  property is \<open>None\<close>. The \<^verbatim>\<open>console.log(str)\<close> of the parser is left out.
\<close>

subsection \<open>The frame\<close>

text \<open>
  \<^verbatim>\<open>canbus.frame\<close>: the constructor sets \<^verbatim>\<open>id\<close>, \<^verbatim>\<open>dlc = 0\<close>,
  \<^verbatim>\<open>timestamp = undefined\<close>, \<^verbatim>\<open>data = []\<close>, \<^verbatim>\<open>is_ext_id = false\<close> and
  \<^verbatim>\<open>is_remote = false\<close>. The field \<open>id_ext_id\<close> is the property of that name which
  the parser adds to the object it returns (line 268); \<open>None\<close> says that the object has
  no such property. The identifier field is called \<open>id_num\<close>, since \<open>id\<close> is the
  identity function of HOL. Identifier, DLC and data bytes are natural numbers.
\<close>

record frame =
  id_num :: nat
  dlc :: nat
  timestamp :: "nat option"
  data :: "nat list"
  is_ext_id :: bool
  is_remote :: bool
  id_ext_id :: "bool option"

definition new_frame :: "nat \<Rightarrow> frame" where
  "new_frame i = \<lparr>id_num = i, dlc = 0, timestamp = None, data = [],
     is_ext_id = False, is_remote = False, id_ext_id = None\<rparr>"

datatype error =
    BadFrameTypeChar      \<comment> \<open>"Invalid slcand frame! (bad frame type char)"\<close>
  | InvalidIDValue        \<comment> \<open>"Invalid ID value"\<close>
  | InvalidDLCValue       \<comment> \<open>"Invalid DLC value"\<close>
  | InvalidDataByte nat   \<comment> \<open>"Invalid data byte at position " + i\<close>
  | TypeError             \<comment> \<open>a method call on \<^verbatim>\<open>undefined\<close>\<close>

definition STD_ID_LEN :: nat where
  "STD_ID_LEN = 3"

definition EXT_ID_LEN :: nat where
  "EXT_ID_LEN = 8"

definition CR :: char where
  "CR = CHR 0x0D"

subsection \<open>The string primitives of JavaScript that the codec uses\<close>

text \<open>\<^verbatim>\<open>str.substr(start, length)\<close> for a start that is not negative.\<close>

definition substr :: "string \<Rightarrow> nat \<Rightarrow> nat \<Rightarrow> string" where
  "substr str start len = take len (drop start str)"

text \<open>
  \<^verbatim>\<open>str.substr(start)\<close>: a negative start counts from the end of the string and
  stops at its beginning.
\<close>

definition substr_from :: "string \<Rightarrow> int \<Rightarrow> string" where
  "substr_from str start =
     (if start < 0 then drop (nat (max (int (length str) + start) 0)) str
      else drop (nat start) str)"

text \<open>
  \<^verbatim>\<open>toUpperCase\<close> on the letters a to z; the encoder applies it to \<^verbatim>\<open>'r'\<close>,
  \<^verbatim>\<open>'t'\<close> and to strings of hexadecimal digits only.
\<close>

definition upper_char :: "char \<Rightarrow> char" where
  "upper_char c =
     (let n = (of_char c :: nat) in if 97 \<le> n \<and> n \<le> 122 then char_of (n - 32) else c)"

definition toUpperCase :: "string \<Rightarrow> string" where
  "toUpperCase s = map upper_char s"

text \<open>The digit of a value below 16, as \<^verbatim>\<open>Number.prototype.toString\<close> writes it.\<close>

definition digit_char :: "nat \<Rightarrow> char" where
  "digit_char d = (if d < 10 then char_of (48 + d) else char_of (87 + d))"

text \<open>
  \<^verbatim>\<open>n.toString(16)\<close> and \<^verbatim>\<open>n.toString()\<close> of a natural number: its digits,
  the most significant first (JavaScript writes an integer from \<open>10 ^ 21\<close> on with an
  exponent in base 10; no frame of interest has such a DLC).
\<close>

fun toString16 :: "nat \<Rightarrow> string" where
  "toString16 n =
     (if n < 16 then [digit_char n] else toString16 (n div 16) @ [digit_char (n mod 16)])"

fun toString10 :: "nat \<Rightarrow> string" where
  "toString10 n =
     (if n < 10 then [digit_char n] else toString10 (n div 10) @ [digit_char (n mod 10)])"

declare toString16.simps [simp del]
declare toString10.simps [simp del]

text \<open>
  The characters that \<^verbatim>\<open>Number\<close> strips from both ends of a string: of the white
  space and line terminators of ECMAScript, those with a code below 256 (TAB, LF, VT,
  FF, CR, SP and NBSP).
\<close>

definition isWhiteSpace :: "char \<Rightarrow> bool" where
  "isWhiteSpace c =
     (let n = (of_char c :: nat) in (9 \<le> n \<and> n \<le> 13) \<or> n = 32 \<or> n = 160)"

definition trim :: "string \<Rightarrow> string" where
  "trim s = rev (dropWhile isWhiteSpace (rev (dropWhile isWhiteSpace s)))"

definition isDigit :: "char \<Rightarrow> bool" where
  "isDigit c = (let n = (of_char c :: nat) in 48 \<le> n \<and> n \<le> 57)"

definition isHexDigit :: "char \<Rightarrow> bool" where
  "isHexDigit c =
     (let n = (of_char c :: nat) in
        (48 \<le> n \<and> n \<le> 57) \<or> (65 \<le> n \<and> n \<le> 70) \<or> (97 \<le> n \<and> n \<le> 102))"

definition digit_value :: "char \<Rightarrow> nat" where
  "digit_value c =
     (let n = (of_char c :: nat) in
        if n \<le> 57 then n - 48 else if n \<le> 70 then n - 55 else n - 87)"

definition radix_value :: "nat \<Rightarrow> string \<Rightarrow> nat" where
  "radix_value r s = foldl (\<lambda>acc c. acc * r + digit_value c) 0 s"

text \<open>
  \<^verbatim>\<open>Number(s)\<close> on a string, with \<open>None\<close> for \<^verbatim>\<open>NaN\<close>: white space is stripped
  from both ends, the empty string is 0, \<^verbatim>\<open>0x\<close> or \<^verbatim>\<open>0X\<close> followed by at least
  one hexadecimal digit is that number, a string of decimal digits is that number.
  The other numeric literals of ECMAScript (a sign, a fraction, an exponent,
  \<^verbatim>\<open>Infinity\<close>, binary and octal literals) are not modelled: the parser calls
  \<^verbatim>\<open>Number\<close> on \<^verbatim>\<open>"0x"\<close> followed by at most 8 characters and on a string of at
  most one character, and none of these literals has one of those forms. The values
  that arise there are below \<open>2 ^ 32\<close>, which a JavaScript number holds exactly.
\<close>

definition Number :: "string \<Rightarrow> nat option" where
  "Number s =
     (let t = trim s in
      if t = [] then Some 0
      else if take 2 t = ''0x'' \<or> take 2 t = ''0X'' then
        (let h = drop 2 t in
         if h \<noteq> [] \<and> list_all isHexDigit h then Some (radix_value 16 h) else None)
      else if list_all isDigit t then Some (radix_value 10 t)
      else None)"

subsection \<open>\<^verbatim>\<open>_parseFrame\<close>\<close>

text \<open>The position \<^verbatim>\<open>pos\<close> of the first character of byte \<open>i\<close> (lines 258 and 259).\<close>

definition data_pos :: "bool \<Rightarrow> nat \<Rightarrow> nat" where
  "data_pos ext i = (if ext then 2 + EXT_ID_LEN + i * 2 else 2 + STD_ID_LEN + i * 2)"

text \<open>
  The loop of lines 256 to 265, from index \<open>i\<close> on, with the bytes read so far. It
  does not look at \<^verbatim>\<open>is_remote\<close>.
\<close>

function parse_data :: "string \<Rightarrow> bool \<Rightarrow> nat \<Rightarrow> nat \<Rightarrow> nat list \<Rightarrow> error + nat list" where
  "parse_data str ext n i bytes =
     (if i < n then
        (case Number (''0x'' @ substr str (data_pos ext i) 2) of
           None \<Rightarrow> Inl (InvalidDataByte i)
         | Some b \<Rightarrow> parse_data str ext n (i + 1) (bytes @ [b]))
      else Inr bytes)"
  by pat_completeness auto
termination
  by (relation "measure (\<lambda>(str, ext, n, i, bytes). n - i)") auto

declare parse_data.simps [simp del]

text \<open>
  The frame type of the first character (lines 221 to 235) as the pair
  \<open>(is_ext_id, is_remote)\<close>; \<^verbatim>\<open>str[0]\<close> of the empty string is \<^verbatim>\<open>undefined\<close>,
  which equals none of the four characters.
\<close>

definition frame_type :: "string \<Rightarrow> error + bool \<times> bool" where
  "frame_type str =
     (case str of
        [] \<Rightarrow> Inl BadFrameTypeChar
      | c # _ \<Rightarrow>
          if c = CHR ''t'' then Inr (False, False)
          else if c = CHR ''r'' then Inr (False, True)
          else if c = CHR ''T'' then Inr (True, False)
          else if c = CHR ''R'' then Inr (True, True)
          else Inl BadFrameTypeChar)"

text \<open>
  Lines 238 to 273. The test \<^verbatim>\<open>dlc < 0\<close> of line 252 has no branch here: a number
  that \<^verbatim>\<open>Number\<close> returns for a string of at most one character is not negative.
  The last four assignments are those of lines 268 to 271, the first of them to
  \<^verbatim>\<open>id_ext_id\<close>.
\<close>

definition parseFrame :: "string \<Rightarrow> error + frame" where
  "parseFrame str =
     (case frame_type str of
        Inl e \<Rightarrow> Inl e
      | Inr (ext, remote) \<Rightarrow>
          (case Number (''0x'' @ (if ext then substr str 1 EXT_ID_LEN
                                   else substr str 1 STD_ID_LEN)) of
             None \<Rightarrow> Inl InvalidIDValue
           | Some i \<Rightarrow>
               (case Number (if ext then substr str (1 + EXT_ID_LEN) 1
                             else substr str (1 + STD_ID_LEN) 1) of
                  None \<Rightarrow> Inl InvalidDLCValue
                | Some n \<Rightarrow>
                    if n > 8 then Inl InvalidDLCValue
                    else
                      (case parse_data str ext n 0 [] of
                         Inl e \<Rightarrow> Inl e
                       | Inr bytes \<Rightarrow>
                           Inr ((new_frame i)\<lparr>id_ext_id := Some ext, is_remote := remote,
                                  dlc := n, data := bytes\<rparr>)))))"

subsection \<open>\<^verbatim>\<open>_packFrame\<close>\<close>

text \<open>
  The loop of lines 303 to 307, from index \<open>i\<close> on. \<^verbatim>\<open>frame.data[i]\<close> past the end
  of the array is \<^verbatim>\<open>undefined\<close>, and calling \<^verbatim>\<open>toString\<close> on it raises a
  \<^verbatim>\<open>TypeError\<close>. The loop does not look at \<^verbatim>\<open>is_remote\<close>.
\<close>

function pack_data :: "frame \<Rightarrow> nat \<Rightarrow> string \<Rightarrow> error + string" where
  "pack_data fr i res =
     (if i < dlc fr then
        (if i < length (data fr) then
           (let byte_str = ''0'' @ toUpperCase (toString16 (data fr ! i)) in
            pack_data fr (i + 1)
              (res @ substr_from byte_str (int (length byte_str) - 2)))
         else Inl TypeError)
      else Inr res)"
  by pat_completeness auto
termination
  by (relation "measure (\<lambda>(fr, i, res). dlc fr - i)") auto

declare pack_data.simps [simp del]

text \<open>Lines 284 to 311, with the successive values of \<^verbatim>\<open>res\<close>.\<close>

definition packFrame :: "frame \<Rightarrow> error + string" where
  "packFrame fr =
     (let res = (if is_remote fr then ''r'' else ''t'');
          res = (if is_ext_id fr then toUpperCase res else res);
          id_str = ''0000000'' @ toString16 (id_num fr);
          res = (if is_ext_id fr
                 then res @ substr_from id_str (int (length id_str) - int EXT_ID_LEN)
                 else res @ substr_from id_str (int (length id_str) - int STD_ID_LEN));
          res = res @ toString10 (dlc fr)
      in case pack_data fr 0 res of
           Inl e \<Rightarrow> Inl e
         | Inr res \<Rightarrow> Inr (res @ [CR]))"

subsection \<open>\<^verbatim>\<open>_serialRecvCallback\<close>\<close>

text \<open>
  The state of the receive path: the two fields \<^verbatim>\<open>_recv_count\<close> and
  \<^verbatim>\<open>_recv_str\<close> of the \<^verbatim>\<open>canbus.slcan\<close> object, the frames that
  \<^verbatim>\<open>recvFrameCallback\<close> has been called with so far, in order, and the number of
  calls of \<^verbatim>\<open>Date.now()\<close> so far. The wall clock is a parameter \<open>now\<close>: its
  \<open>k\<close>-th reading is \<open>now k\<close>.
\<close>

record slcan =
  recv_count :: nat
  recv_str :: string
  delivered :: "frame list"
  ticks :: nat

definition new_slcan :: slcan where
  "new_slcan = \<lparr>recv_count = 0, recv_str = [], delivered = [], ticks = 0\<rparr>"

text \<open>
  An element of the \<^verbatim>\<open>Uint8Array\<close> is a byte, which is what a \<open>char\<close> is, and
  \<^verbatim>\<open>String.fromCharCode\<close> gives the character with that code.
\<close>

definition fromCharCode :: "char \<Rightarrow> char" where
  "fromCharCode b = b"

text \<open>
  The loop of lines 184 to 204 over the received bytes. An exception of
  \<^verbatim>\<open>_parseFrame\<close> is not caught: it leaves the loop and the callback, with the
  buffer and the counter already reset, and the bytes after the terminator unread.
  The result is the exception, if one was raised, and the state left behind. The
  callback \<^verbatim>\<open>recvFrameCallback\<close> is taken to return normally.
\<close>

fun serialRecvCallback :: "(nat \<Rightarrow> nat) \<Rightarrow> slcan \<Rightarrow> char list \<Rightarrow> error option \<times> slcan" where
  "serialRecvCallback now s [] = (None, s)"
| "serialRecvCallback now s (b # bs) =
     (let char = fromCharCode b;
          s = s\<lparr>recv_count := recv_count s + 1\<rparr>
      in if char = CR then
           (let tmp = recv_str s;
                s = s\<lparr>recv_str := [], recv_count := 0\<rparr>
            in case parseFrame tmp of
                 Inl e \<Rightarrow> (Some e, s)
               | Inr fr \<Rightarrow>
                   (let fr = fr\<lparr>timestamp := Some (now (ticks s))\<rparr>;
                        s = s\<lparr>ticks := ticks s + 1\<rparr>
                    in serialRecvCallback now (s\<lparr>delivered := delivered s @ [fr]\<rparr>) bs))
         else serialRecvCallback now (s\<lparr>recv_str := recv_str s @ [char]\<rparr>) bs)"

text \<open>
  A sequence of receive events, each with its chunk of bytes: the exceptions raised, in
  order, and the final state. An exception ends the event it was raised in, not the
  connection: the next event runs on the state the failed one left behind.
\<close>

fun receive_all :: "(nat \<Rightarrow> nat) \<Rightarrow> slcan \<Rightarrow> char list list \<Rightarrow> error list \<times> slcan" where
  "receive_all now s [] = ([], s)"
| "receive_all now s (chunk # chunks) =
     (case serialRecvCallback now s chunk of
        (None, s') \<Rightarrow> receive_all now s' chunks
      | (Some e, s') \<Rightarrow> (case receive_all now s' chunks of (es, s'') \<Rightarrow> (e # es, s'')))"

section \<open>Notions used to state the properties\<close>

text \<open>The width of the identifier field of a command: 8 characters if extended, else 3.\<close>

definition id_len :: "bool \<Rightarrow> nat" where
  "id_len ext = (if ext then EXT_ID_LEN else STD_ID_LEN)"

text \<open>A string without the white space at its end.\<close>

definition trim_right :: "string \<Rightarrow> string" where
  "trim_right s = rev (dropWhile isWhiteSpace (rev s))"

text \<open>
  The pieces of an encoded command, as \<^verbatim>\<open>_packFrame\<close> computes them: the type
  character (lines 284 to 288), the identifier field (lines 291 to 297) and the two
  characters of a data byte (lines 305 and 306).
\<close>

definition type_char :: "bool \<Rightarrow> bool \<Rightarrow> char" where
  "type_char ext remote =
     (if remote then (if ext then CHR ''R'' else CHR ''r'')
      else (if ext then CHR ''T'' else CHR ''t''))"

definition id_field :: "bool \<Rightarrow> nat \<Rightarrow> string" where
  "id_field ext i =
     (let id_str = ''0000000'' @ toString16 i
      in substr_from id_str (int (length id_str) - int (id_len ext)))"

definition byte_field :: "nat \<Rightarrow> string" where
  "byte_field b =
     (let byte_str = ''0'' @ toUpperCase (toString16 b)
      in substr_from byte_str (int (length byte_str) - 2))"

text \<open>
  The invariants of a frame in section 3 of the specification: the DLC is at most 8, a
  data frame has exactly \<^verbatim>\<open>dlc\<close> data bytes (nothing is asked of the data of a
  remote frame), the identifier fits in 11 bits, or in 29 bits if extended, and the data
  are byte values.
\<close>

definition frame_inv :: "frame \<Rightarrow> bool" where
  "frame_inv fr =
     (dlc fr \<le> 8
      \<and> (is_remote fr \<or> length (data fr) = dlc fr)
      \<and> id_num fr < (if is_ext_id fr then 2 ^ 29 else 2 ^ 11)
      \<and> list_all (\<lambda>b. b < 256) (data fr))"

text \<open>
  Encoding a frame and parsing the command it gives, without its terminator, as the
  receive path hands it to the parser.
\<close>

definition roundtrip :: "frame \<Rightarrow> error + frame" where
  "roundtrip fr =
     (case packFrame fr of
        Inl e \<Rightarrow> Inl e
      | Inr s \<Rightarrow> parseFrame (butlast s))"

section \<open>Evaluation on concrete inputs\<close>

lemmas parse_eval =
  parseFrame_def frame_type_def Number_def trim_def substr_def STD_ID_LEN_def
  EXT_ID_LEN_def isWhiteSpace_def isHexDigit_def isDigit_def radix_value_def
  digit_value_def parse_data.simps data_pos_def new_frame_def

lemmas pack_eval =
  packFrame_def toString16.simps toString10.simps pack_data.simps digit_char_def
  toUpperCase_def upper_char_def substr_from_def STD_ID_LEN_def EXT_ID_LEN_def
  char_of_eq_iff

section \<open>The parser reads fixed positions\<close>

lemma parseFrame_cases:
  "parseFrame str =
     (case frame_type str of
        Inl e \<Rightarrow> Inl e
      | Inr (ext, remote) \<Rightarrow>
          (case Number (''0x'' @ substr str 1 (id_len ext)) of
             None \<Rightarrow> Inl InvalidIDValue
           | Some i \<Rightarrow>
               (case Number (substr str (1 + id_len ext) 1) of
                  None \<Rightarrow> Inl InvalidDLCValue
                | Some n \<Rightarrow>
                    if n > 8 then Inl InvalidDLCValue
                    else
                      (case parse_data str ext n 0 [] of
                         Inl e \<Rightarrow> Inl e
                       | Inr bytes \<Rightarrow>
                           Inr \<lparr>id_num = i, dlc = n, timestamp = None, data = bytes,
                                is_ext_id = False, is_remote = remote, id_ext_id = Some ext\<rparr>))))"
  by (simp add: parseFrame_def id_len_def new_frame_def split: sum.split option.split)

lemma parseFrame_InrI:
  assumes "frame_type str = Inr (ext, remote)"
    and "Number (''0x'' @ substr str 1 (id_len ext)) = Some i"
    and "Number (substr str (1 + id_len ext) 1) = Some n"
    and "n \<le> 8"
    and "parse_data str ext n 0 [] = Inr bytes"
  shows "parseFrame str = Inr \<lparr>id_num = i, dlc = n, timestamp = None, data = bytes,
           is_ext_id = False, is_remote = remote, id_ext_id = Some ext\<rparr>"
  using assms by (simp add: parseFrame_cases)

lemma parseFrame_InrE:
  assumes "parseFrame str = Inr fr"
  obtains ext remote i n bytes where
    "frame_type str = Inr (ext, remote)"
    "Number (''0x'' @ substr str 1 (id_len ext)) = Some i"
    "Number (substr str (1 + id_len ext) 1) = Some n"
    "n \<le> 8"
    "parse_data str ext n 0 [] = Inr bytes"
    "fr = \<lparr>id_num = i, dlc = n, timestamp = None, data = bytes,
           is_ext_id = False, is_remote = remote, id_ext_id = Some ext\<rparr>"
proof (cases "frame_type str")
  case (Inl e)
  with assms show ?thesis by (simp add: parseFrame_cases)
next
  case (Inr p)
  obtain ext remote where p: "p = (ext, remote)" by (cases p)
  note ft = Inr [unfolded p]
  show ?thesis
  proof (cases "Number (''0x'' @ substr str 1 (id_len ext))")
    case None
    with assms ft show ?thesis by (simp add: parseFrame_cases)
  next
    case (Some i)
    note i = this
    show ?thesis
    proof (cases "Number (substr str (1 + id_len ext) 1)")
      case None
      with assms ft i show ?thesis by (simp add: parseFrame_cases)
    next
      case (Some n)
      note n = this
      show ?thesis
      proof (cases "parse_data str ext n 0 []")
        case (Inl e)
        with assms ft i n show ?thesis by (simp add: parseFrame_cases split: if_splits)
      next
        case (Inr bytes)
        note b = this
        from assms ft i n b have le: "n \<le> 8"
          by (simp add: parseFrame_cases split: if_splits)
        from parseFrame_InrI [OF ft i n le b] assms
        have "fr = \<lparr>id_num = i, dlc = n, timestamp = None, data = bytes,
           is_ext_id = False, is_remote = remote, id_ext_id = Some ext\<rparr>" by simp
        with that [OF ft i n le b] show ?thesis by blast
      qed
    qed
  qed
qed

text \<open>The loop depends on the string through the substrings at the byte positions only.\<close>

lemma parse_data_cong_str:
  assumes "\<And>j. j < n \<Longrightarrow> substr s (data_pos ext j) 2 = substr s' (data_pos ext j) 2"
  shows "parse_data s ext n i bytes = parse_data s' ext n i bytes"
proof (induction "n - i" arbitrary: i bytes)
  case 0
  then show ?case by (simp add: parse_data.simps)
next
  case (Suc k)
  then have lt: "i < n" and k: "k = n - (i + 1)" by simp_all
  show ?case
    using Suc.hyps(1)[OF k] assms[OF lt]
    by (subst (1 2) parse_data.simps) (simp split: option.split)
qed

lemma substr_Cons_pos: "0 < k \<Longrightarrow> substr (c # rest) k n = substr rest (k - 1) n"
  by (cases k) (simp_all add: substr_def)

lemma substr_append:
  "start + len \<le> length s \<Longrightarrow> substr (s @ x) start len = substr s start len"
  by (simp add: substr_def)

lemma data_pos_pos: "0 < data_pos ext j"
  by (simp add: data_pos_def)

lemma data_pos_mono: "j < n \<Longrightarrow> data_pos ext j + 2 \<le> data_pos ext n"
  by (simp add: data_pos_def)

lemma data_pos_eq: "data_pos ext n = 1 + id_len ext + 1 + 2 * n"
  by (simp add: data_pos_def id_len_def)

lemma parse_data_head:
  "parse_data (c # rest) ext n i bytes = parse_data (d # rest) ext n i bytes"
  by (rule parse_data_cong_str) (simp add: substr_Cons_pos data_pos_pos)

lemma parse_data_append:
  assumes "data_pos ext n \<le> length s"
  shows "parse_data (s @ x) ext n i bytes = parse_data s ext n i bytes"
proof (rule parse_data_cong_str)
  fix j assume "j < n"
  then have "data_pos ext j + 2 \<le> length s"
    using data_pos_mono [of j n ext] assms by simp
  then show "substr (s @ x) (data_pos ext j) 2 = substr s (data_pos ext j) 2"
    by (rule substr_append)
qed

lemma frame_type_append: "s \<noteq> [] \<Longrightarrow> frame_type (s @ x) = frame_type s"
  by (cases s) (simp_all add: frame_type_def)

lemma parseFrame_remote_as_data:
  "parseFrame (CHR ''r'' # rest) =
     (case parseFrame (CHR ''t'' # rest) of
        Inl e \<Rightarrow> Inl e | Inr fr \<Rightarrow> Inr (fr\<lparr>is_remote := True\<rparr>))"
  unfolding parseFrame_def
  by (simp add: frame_type_def substr_def STD_ID_LEN_def new_frame_def
        parse_data_head [of "CHR ''r''" rest _ _ _ _ "CHR ''t''"]
      split: option.split sum.split)

lemma parseFrame_ext_remote_as_data:
  "parseFrame (CHR ''R'' # rest) =
     (case parseFrame (CHR ''T'' # rest) of
        Inl e \<Rightarrow> Inl e | Inr fr \<Rightarrow> Inr (fr\<lparr>is_remote := True\<rparr>))"
  unfolding parseFrame_def
  by (simp add: frame_type_def substr_def EXT_ID_LEN_def new_frame_def
        parse_data_head [of "CHR ''R''" rest _ _ _ _ "CHR ''T''"]
      split: option.split sum.split)

section \<open>What \<^verbatim>\<open>Number\<close> accepts\<close>

lemma not_ws_0x [simp]: "\<not> isWhiteSpace CHR ''0''" "\<not> isWhiteSpace CHR ''x''"
  by (simp_all add: isWhiteSpace_def)

lemma trim_0x: "trim (''0x'' @ s) = ''0x'' @ trim_right s"
  by (simp add: trim_def trim_right_def dropWhile_append)

lemma Number_0x:
  "Number (''0x'' @ s) =
     (if trim_right s \<noteq> [] \<and> list_all isHexDigit (trim_right s)
      then Some (radix_value 16 (trim_right s)) else None)"
  unfolding Number_def trim_0x by simp

lemma Number_Nil: "Number [] = Some 0"
  by (simp add: Number_def trim_def)

lemma isDigit_not_ws: "isDigit d \<Longrightarrow> \<not> isWhiteSpace d"
  by (auto simp: isDigit_def isWhiteSpace_def Let_def)

lemma Number_single:
  "Number [d] =
     (if isWhiteSpace d then Some 0
      else if isDigit d then Some (digit_value d) else None)"
  by (simp add: Number_def trim_def radix_value_def)

lemma parse_data_Inl:
  "parse_data s ext n i bytes = Inl e \<Longrightarrow> \<exists>j. e = InvalidDataByte j"
proof (induction "n - i" arbitrary: i bytes)
  case 0
  then show ?case by (simp add: parse_data.simps)
next
  case (Suc k)
  then have lt: "i < n" and k: "k = n - (i + 1)" by simp_all
  from Suc.prems lt Suc.hyps(1)[OF k] show ?case
    by (subst (asm) parse_data.simps) (auto split: option.splits)
qed

lemma parseFrame_InvalidIDValue_Number:
  assumes "frame_type str = Inr (ext, remote)"
  shows "parseFrame str = Inl InvalidIDValue \<longleftrightarrow>
           Number (''0x'' @ substr str 1 (id_len ext)) = None"
  using assms
  by (auto simp: parseFrame_cases split: option.splits sum.splits dest: parse_data_Inl)

lemma parseFrame_InvalidDLCValue_Number:
  assumes "frame_type str = Inr (ext, remote)"
    and "Number (''0x'' @ substr str 1 (id_len ext)) = Some i"
  shows "parseFrame str = Inl InvalidDLCValue \<longleftrightarrow>
           (case Number (substr str (1 + id_len ext) 1) of None \<Rightarrow> True | Some n \<Rightarrow> 8 < n)"
  using assms
  by (auto simp: parseFrame_cases split: option.splits sum.splits dest: parse_data_Inl)

lemma parseFrame_InvalidDLCValue_char:
  assumes "frame_type str = Inr (ext, remote)"
    and "parseFrame str \<noteq> Inl InvalidIDValue"
  shows "parseFrame str = Inl InvalidDLCValue \<longleftrightarrow>
           (case substr str (1 + id_len ext) 1 of
              [] \<Rightarrow> False
            | d # _ \<Rightarrow> \<not> isWhiteSpace d \<and> \<not> (isDigit d \<and> digit_value d \<le> 8))"
proof -
  from assms obtain i where i: "Number (''0x'' @ substr str 1 (id_len ext)) = Some i"
    by (auto simp: parseFrame_InvalidIDValue_Number)
  define t where "t = substr str (1 + id_len ext) 1"
  have "length t \<le> 1" by (simp add: t_def substr_def)
  then consider "t = []" | d where "t = [d]"
    by (cases t) auto
  then show ?thesis
    unfolding parseFrame_InvalidDLCValue_Number [OF assms(1) i] t_def [symmetric]
    by cases (auto simp: Number_Nil Number_single)
qed

section \<open>The shape of an encoded command\<close>

lemma pack_data_ok:
  assumes "dlc fr \<le> length (data fr)"
  shows "i \<le> dlc fr \<Longrightarrow>
    pack_data fr i res = Inr (res @ concat (map byte_field (drop i (take (dlc fr) (data fr)))))"
proof (induction "dlc fr - i" arbitrary: i res)
  case 0
  then show ?case by (simp add: pack_data.simps)
next
  case (Suc k)
  then have lt: "i < dlc fr" and k: "k = dlc fr - (i + 1)" and le: "i + 1 \<le> dlc fr"
    by simp_all
  from lt assms have il: "i < length (data fr)" by simp
  have d: "drop i (take (dlc fr) (data fr)) = data fr ! i # drop (i + 1) (take (dlc fr) (data fr))"
    using lt il by (simp add: Cons_nth_drop_Suc [symmetric])
  show ?case
    using Suc.hyps(1) [OF k le] lt il
    by (subst pack_data.simps) (simp add: d byte_field_def Let_def)
qed

lemma pack_data_err:
  assumes "length (data fr) < dlc fr"
  shows "i \<le> length (data fr) \<Longrightarrow> pack_data fr i res = Inl TypeError"
proof (induction "length (data fr) - i" arbitrary: i res)
  case 0
  with assms show ?case by (simp add: pack_data.simps)
next
  case (Suc k)
  then have il: "i < length (data fr)" and k: "k = length (data fr) - (i + 1)"
    and le: "i + 1 \<le> length (data fr)"
    by simp_all
  from il assms have lt: "i < dlc fr" by simp
  show ?case
    using Suc.hyps(1) [OF k le] lt il
    by (subst pack_data.simps) (simp add: Let_def)
qed

lemma packFrame_ok:
  assumes "dlc fr \<le> length (data fr)"
  shows "packFrame fr =
     Inr (type_char (is_ext_id fr) (is_remote fr) # id_field (is_ext_id fr) (id_num fr)
          @ toString10 (dlc fr) @ concat (map byte_field (take (dlc fr) (data fr))) @ [CR])"
  using pack_data_ok [OF assms, of 0]
  by (simp add: packFrame_def Let_def type_char_def id_field_def id_len_def toUpperCase_def
        upper_char_def char_of_eq_iff)

lemma packFrame_err:
  assumes "length (data fr) < dlc fr"
  shows "packFrame fr = Inl TypeError"
  using pack_data_err [OF assms, of 0]
  by (simp add: packFrame_def Let_def)

section \<open>The receive callback on whole commands\<close>

lemma recv_accumulate:
  "CR \<notin> set cmd \<Longrightarrow>
   serialRecvCallback now s (cmd @ rest) =
     serialRecvCallback now
       (s\<lparr>recv_count := recv_count s + length cmd, recv_str := recv_str s @ cmd\<rparr>) rest"
proof (induction cmd arbitrary: s)
  case Nil
  then show ?case by simp
next
  case (Cons c cmd)
  from Cons.prems have "c \<noteq> CR" by auto
  with Cons show ?case by (cases s) (simp add: fromCharCode_def Let_def)
qed

lemma recv_CR:
  "serialRecvCallback now s (CR # rest) =
     (case parseFrame (recv_str s) of
        Inl e \<Rightarrow> (Some e, s\<lparr>recv_count := 0, recv_str := []\<rparr>)
      | Inr fr \<Rightarrow>
          serialRecvCallback now
            (s\<lparr>recv_count := 0, recv_str := [],
               delivered := delivered s @ [fr\<lparr>timestamp := Some (now (ticks s))\<rparr>],
               ticks := ticks s + 1\<rparr>) rest)"
  by (cases s) (simp add: fromCharCode_def Let_def split: sum.split)

lemma recv_command_bad:
  assumes "CR \<notin> set cmd" "parseFrame (recv_str s @ cmd) = Inl e"
  shows "serialRecvCallback now s (cmd @ CR # rest) = (Some e, s\<lparr>recv_count := 0, recv_str := []\<rparr>)"
  unfolding recv_accumulate [OF assms(1)] recv_CR
  using assms(2) by (cases s) simp

lemma recv_command_good:
  assumes "CR \<notin> set cmd" "parseFrame (recv_str s @ cmd) = Inr fr"
  shows "serialRecvCallback now s (cmd @ CR # rest) =
     serialRecvCallback now
            (s\<lparr>recv_count := 0, recv_str := [],
               delivered := delivered s @ [fr\<lparr>timestamp := Some (now (ticks s))\<rparr>],
               ticks := ticks s + 1\<rparr>) rest"
  unfolding recv_accumulate [OF assms(1)] recv_CR
  using assms(2) by (cases s) simp

lemma recv_append:
  "serialRecvCallback now s (a @ b) =
     (case serialRecvCallback now s a of
        (None, s') \<Rightarrow> serialRecvCallback now s' b
      | (Some e, s') \<Rightarrow> (Some e, s'))"
proof (induction a arbitrary: s)
  case Nil
  then show ?case by simp
next
  case (Cons c a)
  show ?case
    by (simp add: Let_def Cons.IH split: sum.split)
qed

lemma receive_all_concat:
  "serialRecvCallback now s (concat chunks) = (None, s') \<Longrightarrow>
   receive_all now s chunks = ([], s')"
proof (induction chunks arbitrary: s)
  case Nil
  then show ?case by simp
next
  case (Cons c chunks)
  from Cons.prems obtain s1 where
    1: "serialRecvCallback now s c = (None, s1)"
    and 2: "serialRecvCallback now s1 (concat chunks) = (None, s')"
    by (auto simp: recv_append split: prod.splits option.splits)
  from Cons.IH [OF 2] 1 show ?case by simp
qed

lemma recv_one_command:
  assumes "CR \<notin> set cmd" "parseFrame cmd = Inr fr" "recv_str s = []"
  shows "serialRecvCallback now s (cmd @ [CR]) =
     (None, s\<lparr>recv_count := 0, recv_str := [],
               delivered := delivered s @ [fr\<lparr>timestamp := Some (now (ticks s))\<rparr>],
               ticks := ticks s + 1\<rparr>)"
  using recv_command_good [of cmd s fr now "[]"] assms by simp

lemma receive_all_empty:
  "concat chunks = [] \<Longrightarrow> receive_all now s chunks = ([], s)"
proof -
  assume e: "concat chunks = []"
  have "serialRecvCallback now s (concat chunks) = (None, s)"
    unfolding e by simp
  then show ?thesis by (rule receive_all_concat)
qed

lemma receive_all_append:
  "receive_all now s (a @ b) =
     (case receive_all now s a of
        (es, s') \<Rightarrow> (case receive_all now s' b of (es', s'') \<Rightarrow> (es @ es', s'')))"
proof (induction a arbitrary: s)
  case Nil
  then show ?case by simp
next
  case (Cons c a)
  show ?case
    by (simp add: Cons.IH split: prod.split option.split)
qed

lemma receive_all_bad_command:
  assumes "CR \<notin> set cmd"
    and "concat chunks = cmd @ [CR]"
    and "parseFrame (recv_str s @ cmd) = Inl e"
  shows "receive_all now s chunks = ([e], s\<lparr>recv_count := 0, recv_str := []\<rparr>)"
  using assms
proof (induction chunks arbitrary: s cmd)
  case Nil
  then show ?case by simp
next
  case (Cons c cs)
  from Cons.prems(2) have "c @ concat cs = cmd @ [CR]" by simp
  then consider
    (whole) "c = cmd @ [CR]" "concat cs = []"
    | (part) cmd' where "cmd = c @ cmd'" "concat cs = cmd' @ [CR]"
    by (auto simp: append_eq_append_conv2 append_eq_Cons_conv Cons_eq_append_conv)
  then show ?case
  proof cases
    case whole
    from recv_command_bad [OF Cons.prems(1,3), of now "[]"] whole(1)
    have "serialRecvCallback now s c = (Some e, s\<lparr>recv_count := 0, recv_str := []\<rparr>)"
      by simp
    with receive_all_empty [OF whole(2)] show ?thesis by simp
  next
    case part
    with Cons.prems(1) have c: "CR \<notin> set c" and c': "CR \<notin> set cmd'" by simp_all
    define s1 where
      "s1 = s\<lparr>recv_count := recv_count s + length c, recv_str := recv_str s @ c\<rparr>"
    have 1: "serialRecvCallback now s c = (None, s1)"
      using recv_accumulate [OF c, of now s "[]"] by (simp add: s1_def)
    have "parseFrame (recv_str s1 @ cmd') = Inl e"
      using Cons.prems(3) part(1) by (simp add: s1_def)
    from Cons.IH [OF c' part(2) this] 1 show ?thesis
      by (simp add: s1_def)
  qed
qed

section \<open>Digits and their values\<close>

lemma of_char_digit_char:
  "d < 16 \<Longrightarrow> (of_char (digit_char d) :: nat) = (if d < 10 then 48 + d else 87 + d)"
  by (simp add: digit_char_def)

lemma digit_char_hex: "d < 16 \<Longrightarrow> isHexDigit (digit_char d)"
  by (simp add: isHexDigit_def of_char_digit_char)

lemma digit_char_value: "d < 16 \<Longrightarrow> digit_value (digit_char d) = d"
  by (simp add: digit_value_def of_char_digit_char)

lemma digit_char_decimal: "d < 10 \<Longrightarrow> isDigit (digit_char d)"
  by (simp add: isDigit_def of_char_digit_char)

lemma upper_digit_char_hex: "d < 16 \<Longrightarrow> isHexDigit (upper_char (digit_char d))"
  by (simp add: isHexDigit_def upper_char_def of_char_digit_char Let_def)

lemma upper_digit_char_value: "d < 16 \<Longrightarrow> digit_value (upper_char (digit_char d)) = d"
  by (simp add: digit_value_def upper_char_def of_char_digit_char Let_def)

lemma isHexDigit_not_ws: "isHexDigit c \<Longrightarrow> \<not> isWhiteSpace c"
  by (auto simp: isHexDigit_def isWhiteSpace_def Let_def)

lemma isHexDigit_not_CR: "isHexDigit c \<Longrightarrow> c \<noteq> CR"
  by (auto simp: isHexDigit_def CR_def)

lemma radix_value_snoc: "radix_value r (s @ [c]) = radix_value r s * r + digit_value c"
  by (simp add: radix_value_def)

lemma digit_value_zero: "digit_value CHR ''0'' = 0"
  by (simp add: digit_value_def)

lemma radix_value_Cons_zero: "radix_value r (CHR ''0'' # s) = radix_value r s"
  by (simp add: radix_value_def digit_value_zero)

lemma radix_value_zeros:
  "radix_value r (replicate k CHR ''0'' @ s) = radix_value r s"
  by (induction k) (simp_all add: radix_value_Cons_zero)

section \<open>\<^verbatim>\<open>toString(16)\<close> and its inverse\<close>

lemma toString16_hex: "list_all (\<lambda>c. \<exists>d<16. c = digit_char d) (toString16 n)"
proof (induction n rule: toString16.induct)
  case (1 n)
  show ?case
  proof (cases "n < 16")
    case True
    then show ?thesis by (subst toString16.simps) auto
  next
    case False
    with 1 show ?thesis by (subst toString16.simps) (auto intro: exI [of _ "n mod 16"])
  qed
qed

lemma toString16_not_Nil: "toString16 n \<noteq> []"
  by (subst toString16.simps) simp

lemma toString16_value: "radix_value 16 (toString16 n) = n"
proof (induction n rule: toString16.induct)
  case (1 n)
  show ?case
  proof (cases "n < 16")
    case True
    then show ?thesis
      by (subst toString16.simps) (simp add: radix_value_def digit_char_value)
  next
    case False
    with 1 show ?thesis
      by (subst toString16.simps) (simp add: radix_value_snoc digit_char_value)
  qed
qed

lemma toString16_length: "n < 16 ^ k \<Longrightarrow> 0 < k \<Longrightarrow> length (toString16 n) \<le> k"
proof (induction n arbitrary: k rule: toString16.induct)
  case (1 n)
  show ?case
  proof (cases "n < 16")
    case True
    with 1 show ?thesis by (subst toString16.simps) simp
  next
    case False
    from "1.prems" obtain k' where k: "k = Suc k'"
      by (cases k) auto
    have k': "0 < k'"
    proof (rule ccontr)
      assume "\<not> 0 < k'"
      with k "1.prems" False show False by simp
    qed
    from "1.prems" k have "n div 16 < 16 ^ k'"
      by (simp add: less_mult_imp_div_less mult.commute)
    from "1.IH" [OF False this k'] False k show ?thesis
      by (subst toString16.simps) simp
  qed
qed

lemma toUpperCase_toString16_hex: "list_all isHexDigit (toUpperCase (toString16 n))"
  using toString16_hex [of n]
  by (auto simp: toUpperCase_def list_all_iff upper_digit_char_hex)

lemma toString16_isHex: "list_all isHexDigit (toString16 n)"
  using toString16_hex [of n]
  by (auto simp: list_all_iff digit_char_hex)

lemma radix_value_upper:
  "list_all (\<lambda>c. \<exists>d<16. c = digit_char d) s \<Longrightarrow>
   radix_value r (toUpperCase s) = radix_value r s"
proof (induction s rule: rev_induct)
  case Nil
  then show ?case by (simp add: toUpperCase_def)
next
  case (snoc c s)
  then obtain d where "d < 16" "c = digit_char d" by auto
  with snoc show ?case
    using radix_value_snoc [of r "toUpperCase s" "upper_char c"]
    by (simp add: toUpperCase_def radix_value_snoc upper_digit_char_value digit_char_value)
qed

section \<open>The fields of an encoded command\<close>

lemma trim_right_hex: "list_all isHexDigit s \<Longrightarrow> trim_right s = s"
  by (cases s rule: rev_cases) (simp_all add: trim_right_def isHexDigit_not_ws)

lemma Number_0x_hex:
  assumes "s \<noteq> []" "list_all isHexDigit s"
  shows "Number (''0x'' @ s) = Some (radix_value 16 s)"
  unfolding Number_0x using assms by (simp add: trim_right_hex)

lemma zeros7: "''0000000'' = replicate 7 CHR ''0''"
  by (simp add: eval_nat_numeral)

lemma id_len_cases: "id_len ext = 3 \<or> id_len ext = 8"
  by (simp add: id_len_def STD_ID_LEN_def EXT_ID_LEN_def)

lemma id_field_eq:
  assumes "length (toString16 i) \<le> id_len ext"
  shows "id_field ext i =
           replicate (id_len ext - length (toString16 i)) CHR ''0'' @ toString16 i"
proof -
  define h where "h = toString16 i"
  have h: "0 < length h" "length h \<le> id_len ext"
    using assms toString16_not_Nil [of i] by (simp_all add: h_def)
  have n: "id_len ext \<le> 8" using id_len_cases [of ext] by auto
  define k where "k = 7 + length h - id_len ext"
  have k: "k \<le> 7" "7 - k = id_len ext - length h"
    using h n unfolding k_def by linarith+
  have st: "int (length (replicate 7 CHR ''0'' @ h)) - int (id_len ext) = int k"
    using h n unfolding k_def length_append length_replicate by linarith
  have "substr_from (replicate 7 CHR ''0'' @ h)
          (int (length (replicate 7 CHR ''0'' @ h)) - int (id_len ext))
        = replicate (id_len ext - length h) CHR ''0'' @ h"
    unfolding st using k by (simp add: substr_from_def)
  then show ?thesis
    by (simp only: id_field_def Let_def zeros7 h_def)
qed

lemma byte_field_eq:
  assumes "length (toString16 b) \<le> 2"
  shows "byte_field b =
           replicate (2 - length (toString16 b)) CHR ''0'' @ toUpperCase (toString16 b)"
proof -
  define h where "h = toUpperCase (toString16 b)"
  have h: "0 < length h" "length h \<le> 2" "length h = length (toString16 b)"
    using assms toString16_not_Nil [of b] by (simp_all add: h_def toUpperCase_def)
  from h(1,2) consider "length h = 1" | "length h = 2" by linarith
  then have "substr_from (''0'' @ h) (int (length (''0'' @ h)) - 2)
        = replicate (2 - length h) CHR ''0'' @ h"
    by cases (simp_all add: substr_from_def)
  then show ?thesis
    by (simp add: byte_field_def Let_def h_def [symmetric] h(3) [symmetric])
qed

lemma zeros_hex: "list_all isHexDigit (replicate k CHR ''0'')"
  by (simp add: list_all_iff isHexDigit_def)

lemma id_field_props:
  assumes "i < 16 ^ id_len ext"
  shows "length (id_field ext i) = id_len ext"
    and "list_all isHexDigit (id_field ext i)"
    and "radix_value 16 (id_field ext i) = i"
proof -
  have "0 < id_len ext" using id_len_cases [of ext] by auto
  with assms have l: "length (toString16 i) \<le> id_len ext"
    by (intro toString16_length)
  note e = id_field_eq [OF l]
  show "length (id_field ext i) = id_len ext" using l by (simp add: e)
  show "list_all isHexDigit (id_field ext i)"
    by (simp add: e zeros_hex toString16_isHex)
  show "radix_value 16 (id_field ext i) = i"
    by (simp add: e radix_value_zeros toString16_value)
qed

lemma byte_field_props:
  assumes "b < 256"
  shows "length (byte_field b) = 2"
    and "list_all isHexDigit (byte_field b)"
    and "radix_value 16 (byte_field b) = b"
proof -
  from assms have "b < 16 ^ 2" by simp
  then have l: "length (toString16 b) \<le> 2"
    by (intro toString16_length) simp_all
  note e = byte_field_eq [OF l]
  show "length (byte_field b) = 2" using l by (simp add: e toUpperCase_def)
  show "list_all isHexDigit (byte_field b)"
    by (simp add: e zeros_hex toUpperCase_toString16_hex)
  show "radix_value 16 (byte_field b) = b"
    by (simp add: e radix_value_zeros radix_value_upper [OF toString16_hex] toString16_value)
qed

lemma Number_id_field:
  assumes "i < 16 ^ id_len ext"
  shows "Number (''0x'' @ id_field ext i) = Some i"
proof -
  have "id_field ext i \<noteq> []"
    using id_field_props(1) [OF assms] id_len_cases [of ext] by auto
  from Number_0x_hex [OF this id_field_props(2) [OF assms]] show ?thesis
    by (simp add: id_field_props(3) [OF assms])
qed

lemma Number_byte_field:
  assumes "b < 256"
  shows "Number (''0x'' @ byte_field b) = Some b"
proof -
  have "byte_field b \<noteq> []"
    using byte_field_props(1) [OF assms] by auto
  from Number_0x_hex [OF this byte_field_props(2) [OF assms]] show ?thesis
    by (simp add: byte_field_props(3) [OF assms])
qed

lemma toString10_digit: "n < 10 \<Longrightarrow> toString10 n = [digit_char n]"
  by (subst toString10.simps) simp

lemma Number_dlc_digit:
  assumes "n \<le> 8"
  shows "Number (toString10 n) = Some n"
proof -
  from assms have "n < 10" "n < 16" by simp_all
  then show ?thesis
    by (simp add: toString10_digit Number_single digit_char_decimal digit_char_value
          isDigit_not_ws)
qed

section \<open>Parsing an encoded command\<close>

lemma concat_pairs:
  assumes "\<And>x. x \<in> set xs \<Longrightarrow> length (f x) = 2"
  shows "i < length xs \<Longrightarrow> take 2 (drop (2 * i) (concat (map f xs) @ rest)) = f (xs ! i)"
  using assms
proof (induction xs arbitrary: i)
  case Nil
  then show ?case by simp
next
  case (Cons x xs)
  show ?case
  proof (cases i)
    case 0
    with Cons.prems show ?thesis by simp
  next
    case (Suc j)
    with Cons.prems have "j < length xs" by simp
    from Cons.IH [OF this] Cons.prems(2) Suc show ?thesis by simp
  qed
qed

lemma parse_data_all:
  assumes "\<And>j. j < n \<Longrightarrow> Number (''0x'' @ substr s (data_pos ext j) 2) = Some (bs ! j)"
    and "length bs = n"
  shows "i \<le> n \<Longrightarrow> parse_data s ext n i acc = Inr (acc @ drop i bs)"
proof (induction "n - i" arbitrary: i acc)
  case 0
  with assms(2) show ?case by (simp add: parse_data.simps)
next
  case (Suc k)
  then have lt: "i < n" and k: "k = n - (i + 1)" and le: "i + 1 \<le> n" by simp_all
  have d: "drop i bs = bs ! i # drop (i + 1) bs"
    using lt assms(2) by (simp add: Cons_nth_drop_Suc)
  show ?case
    using Suc.hyps(1) [OF k le] assms(1) [OF lt] lt
    by (subst parse_data.simps) (simp add: d)
qed

lemma frame_type_type_char:
  "frame_type (type_char ext remote # s) = Inr (ext, remote)"
  by (simp add: frame_type_def type_char_def)

lemma parse_encoded:
  assumes i: "i < 16 ^ id_len ext"
    and n: "length bs \<le> 8"
    and b: "list_all (\<lambda>b. b < 256) bs"
  shows "parseFrame (type_char ext remote # id_field ext i @ toString10 (length bs)
                     @ concat (map byte_field bs) @ extra)
         = Inr \<lparr>id_num = i, dlc = length bs, timestamp = None, data = bs,
              is_ext_id = False, is_remote = remote, id_ext_id = Some ext\<rparr>"
proof -
  define cmd where "cmd = type_char ext remote # id_field ext i @ toString10 (length bs)
                     @ concat (map byte_field bs) @ extra"
  have li: "length (id_field ext i) = id_len ext" by (rule id_field_props(1) [OF i])
  have td: "toString10 (length bs) = [digit_char (length bs)]"
    using n by (simp add: toString10_digit)
  have ft: "frame_type cmd = Inr (ext, remote)"
    unfolding cmd_def by (rule frame_type_type_char)
  have s1: "substr cmd 1 (id_len ext) = id_field ext i"
    by (simp add: cmd_def substr_def li)
  have s2: "substr cmd (1 + id_len ext) 1 = toString10 (length bs)"
    by (simp add: cmd_def substr_def li td)
  have bl: "length (byte_field x) = 2" if "x \<in> set bs" for x
    using that b by (auto simp: list_all_iff intro: byte_field_props(1))
  have s3: "substr cmd (data_pos ext j) 2 = byte_field (bs ! j)" if "j < length bs" for j
  proof -
    have "drop (data_pos ext j) cmd = drop (2 * j) (concat (map byte_field bs) @ extra)"
      by (simp add: cmd_def data_pos_eq li td)
    with concat_pairs [of bs byte_field j extra, OF bl that] show ?thesis
      by (simp add: substr_def)
  qed
  have n1: "Number (''0x'' @ substr cmd 1 (id_len ext)) = Some i"
    unfolding s1 by (rule Number_id_field [OF i])
  have n2: "Number (substr cmd (1 + id_len ext) 1) = Some (length bs)"
    unfolding s2 by (rule Number_dlc_digit [OF n])
  have n3: "Number (''0x'' @ substr cmd (data_pos ext j) 2) = Some (bs ! j)"
    if "j < length bs" for j
    unfolding s3 [OF that] using that b
    by (intro Number_byte_field) (simp add: list_all_length)
  have pd: "parse_data cmd ext (length bs) 0 [] = Inr bs"
    using parse_data_all [of "length bs" cmd ext bs 0 "[]", OF n3] by simp
  show ?thesis
    unfolding cmd_def [symmetric] by (rule parseFrame_InrI [OF ft n1 n2 n pd])
qed

lemma id_range:
  "i < (if ext then 2 ^ 29 else 2 ^ 11) \<Longrightarrow> (i::nat) < 16 ^ id_len ext"
  by (simp add: id_len_def STD_ID_LEN_def EXT_ID_LEN_def split: if_splits)

lemma type_char_not_CR: "type_char ext remote \<noteq> CR"
  by (simp add: type_char_def CR_def)

lemma hex_no_CR: "list_all isHexDigit s \<Longrightarrow> CR \<notin> set s"
  by (auto simp: list_all_iff dest: isHexDigit_not_CR)

lemma encoded_command:
  assumes "frame_inv fr" and "length (data fr) = dlc fr"
  obtains cmd where
    "packFrame fr = Inr (cmd @ [CR])"
    "CR \<notin> set cmd"
    "parseFrame cmd =
       Inr \<lparr>id_num = id_num fr, dlc = dlc fr, timestamp = None, data = data fr,
          is_ext_id = False, is_remote = is_remote fr, id_ext_id = Some (is_ext_id fr)\<rparr>"
    "parseFrame (cmd @ [CR]) =
       Inr \<lparr>id_num = id_num fr, dlc = dlc fr, timestamp = None, data = data fr,
          is_ext_id = False, is_remote = is_remote fr, id_ext_id = Some (is_ext_id fr)\<rparr>"
proof -
  define cmd where
    "cmd = type_char (is_ext_id fr) (is_remote fr) # id_field (is_ext_id fr) (id_num fr)
          @ toString10 (length (data fr)) @ concat (map byte_field (data fr))"
  from assms have i: "id_num fr < 16 ^ id_len (is_ext_id fr)"
    and n: "length (data fr) \<le> 8"
    and b: "list_all (\<lambda>b. b < 256) (data fr)"
    by (simp_all add: frame_inv_def id_range)
  from assms(2) have "dlc fr \<le> length (data fr)" by simp
  from packFrame_ok [OF this] assms(2)
  have 1: "packFrame fr = Inr (cmd @ [CR])"
    by (simp add: cmd_def)
  have "CR \<notin> set (id_field (is_ext_id fr) (id_num fr))"
    by (rule hex_no_CR [OF id_field_props(2) [OF i]])
  moreover have "CR \<notin> set (toString10 (length (data fr)))"
  proof -
    from n have "isHexDigit (digit_char (length (data fr)))"
      by (intro digit_char_hex) simp
    with n show ?thesis
      by (auto simp: toString10_digit dest: isHexDigit_not_CR)
  qed
  moreover have "CR \<notin> set (byte_field x)" if "x \<in> set (data fr)" for x
    using that b by (intro hex_no_CR byte_field_props(2)) (simp add: list_all_iff)
  ultimately have 2: "CR \<notin> set cmd"
    by (auto simp: cmd_def type_char_not_CR [symmetric])
  have 3: "parseFrame cmd =
       Inr \<lparr>id_num = id_num fr, dlc = dlc fr, timestamp = None, data = data fr,
          is_ext_id = False, is_remote = is_remote fr, id_ext_id = Some (is_ext_id fr)\<rparr>"
    using parse_encoded [OF i n b, of "is_remote fr" "[]"] assms(2) by (simp add: cmd_def)
  have 4: "parseFrame (cmd @ [CR]) =
       Inr \<lparr>id_num = id_num fr, dlc = dlc fr, timestamp = None, data = data fr,
          is_ext_id = False, is_remote = is_remote fr, id_ext_id = Some (is_ext_id fr)\<rparr>"
    using parse_encoded [OF i n b, of "is_remote fr" "[CR]"] assms(2) by (simp add: cmd_def)
  from that [OF 1 2 3 4] show ?thesis .
qed

section \<open>The encoder on the extended frame of the specification's second scenario\<close>

text \<open>
  C9, as the specification states it: encoding the extended data frame with id
  0x1ABCDEF, dlc 0 and no data returns \<^verbatim>\<open>"T001ABCDEF0\r"\<close>. The encoder does not
  return that string.
\<close>

theorem packFrame_extended_not_spec_string:
  "packFrame \<lparr>id_num = 0x1ABCDEF, dlc = 0, timestamp = None, data = [],
      is_ext_id = True, is_remote = False, id_ext_id = None\<rparr>
   \<noteq> Inr (''T001ABCDEF0'' @ [CR])"
  by (simp add: pack_eval)

text \<open>
  C9, amended: encoding the extended data frame with id 0x1ABCDEF, dlc 0 and no data
  returns \<^verbatim>\<open>"T01abcdef0\r"\<close>: the type character, the identifier as 8 hexadecimal
  digits in lower case (\<^verbatim>\<open>toString(16)\<close>, padded with zeros on the left), the DLC
  digit and the carriage return.
\<close>

theorem packFrame_extended_example:
  "packFrame \<lparr>id_num = 0x1ABCDEF, dlc = 0, timestamp = None, data = [],
      is_ext_id = True, is_remote = False, id_ext_id = None\<rparr>
   = Inr (''T01abcdef0'' @ [CR])"
  by (simp add: pack_eval)

section \<open>The extended flag of a parsed frame\<close>

text \<open>
  C6: the frame of a command that parses carries \<^verbatim>\<open>id\<close>, \<^verbatim>\<open>dlc\<close>,
  \<^verbatim>\<open>data\<close>, \<^verbatim>\<open>is_ext_id\<close> and \<^verbatim>\<open>is_remote\<close> as decoded, so that a command
  with leading \<^verbatim>\<open>T\<close> or \<^verbatim>\<open>R\<close> yields \<^verbatim>\<open>is_ext_id == true\<close>; the parser
  leaves the timestamp unset and the receive callback sets it before it passes the frame
  on. The parser stores the flag in a property \<^verbatim>\<open>id_ext_id\<close> (line 268), so
  \<^verbatim>\<open>is_ext_id\<close> keeps the \<^verbatim>\<open>false\<close> of the constructor: the extended command
  \<^verbatim>\<open>T01ABCDEF0\<close> parses to a frame with id 0x1ABCDEF, dlc 0, no data, no timestamp,
  \<^verbatim>\<open>is_ext_id\<close> false and \<^verbatim>\<open>id_ext_id\<close> true, and the receive callback, given
  the command and its terminator, passes that frame on with the reading of the clock as
  its timestamp.
\<close>

theorem parseFrame_extended_flag_lost:
  "parseFrame ''T01ABCDEF0'' =
     Inr \<lparr>id_num = 0x1ABCDEF, dlc = 0, timestamp = None, data = [],
        is_ext_id = False, is_remote = False, id_ext_id = Some True\<rparr>
   \<and> serialRecvCallback (\<lambda>k. 1000 + k) new_slcan (''T01ABCDEF0'' @ [CR]) =
     (None,
      \<lparr>recv_count = 0, recv_str = [],
         delivered = [\<lparr>id_num = 0x1ABCDEF, dlc = 0, timestamp = Some 1000, data = [],
                        is_ext_id = False, is_remote = False, id_ext_id = Some True\<rparr>],
         ticks = 1\<rparr>)"
proof -
  have p: "parseFrame ''T01ABCDEF0'' =
     Inr \<lparr>id_num = 0x1ABCDEF, dlc = 0, timestamp = None, data = [],
        is_ext_id = False, is_remote = False, id_ext_id = Some True\<rparr>"
    by (simp add: parse_eval)
  have c: "CR \<notin> set ''T01ABCDEF0''" by (simp add: CR_def)
  have e: "recv_str new_slcan = []" by (simp add: new_slcan_def)
  from recv_one_command [OF c p e, of "\<lambda>k. 1000 + k"] p show ?thesis
    by (simp add: new_slcan_def)
qed

section \<open>Remote commands\<close>

text \<open>
  C2, as the specification states it: for a remote command the parser consumes no data
  characters, and \<^verbatim>\<open>r1235\<close> parses to a frame with id 0x123, dlc 5 and empty data.
  The parser raises "Invalid data byte at position 0" on that command: its loop reads
  \<^verbatim>\<open>dlc\<close> bytes whatever the frame type.
\<close>

theorem parseFrame_r1235_fails:
  "parseFrame ''r1235'' = Inl (InvalidDataByte 0)"
  by (simp add: parse_eval)

text \<open>
  C2, amended: for every remote command the parser reads \<open>2 * dlc\<close> data characters
  exactly as for a data command. The result for a command with leading \<^verbatim>\<open>r\<close> is that
  for the same command with leading \<^verbatim>\<open>t\<close>, and the result for leading \<^verbatim>\<open>R\<close> is
  that for leading \<^verbatim>\<open>T\<close>: the same exception, or the same frame with
  \<^verbatim>\<open>is_remote\<close> true. In particular \<^verbatim>\<open>r1230\<close> yields id 0x123, dlc 0 and empty
  data, and \<^verbatim>\<open>r12350102030405\<close> yields id 0x123, dlc 5 and the data bytes 1 to 5,
  both with \<^verbatim>\<open>is_ext_id\<close> false and \<^verbatim>\<open>is_remote\<close> true.
\<close>

theorem parseFrame_remote_reads_data:
  "parseFrame (CHR ''r'' # rest) =
     (case parseFrame (CHR ''t'' # rest) of
        Inl e \<Rightarrow> Inl e | Inr fr \<Rightarrow> Inr (fr\<lparr>is_remote := True\<rparr>))
   \<and> parseFrame (CHR ''R'' # rest) =
     (case parseFrame (CHR ''T'' # rest) of
        Inl e \<Rightarrow> Inl e | Inr fr \<Rightarrow> Inr (fr\<lparr>is_remote := True\<rparr>))
   \<and> parseFrame ''r1230'' =
       Inr \<lparr>id_num = 0x123, dlc = 0, timestamp = None, data = [],
          is_ext_id = False, is_remote = True, id_ext_id = Some False\<rparr>
   \<and> parseFrame ''r12350102030405'' =
       Inr \<lparr>id_num = 0x123, dlc = 5, timestamp = None, data = [1, 2, 3, 4, 5],
          is_ext_id = False, is_remote = True, id_ext_id = Some False\<rparr>"
proof (intro conjI)
  show "parseFrame ''r1230'' =
       Inr \<lparr>id_num = 0x123, dlc = 0, timestamp = None, data = [],
          is_ext_id = False, is_remote = True, id_ext_id = Some False\<rparr>"
    by (simp add: parse_eval)
  show "parseFrame ''r12350102030405'' =
       Inr \<lparr>id_num = 0x123, dlc = 5, timestamp = None, data = [1, 2, 3, 4, 5],
          is_ext_id = False, is_remote = True, id_ext_id = Some False\<rparr>"
    by (simp add: parse_eval)
qed (rule parseFrame_remote_as_data parseFrame_ext_remote_as_data)+

section \<open>Characters after the last position the parser reads\<close>

text \<open>
  C10, as stated: a command that parses and is at least as long as its type character,
  its identifier field, its DLC digit and, for a data frame, its \<open>2 * dlc\<close> data
  characters, parses to the same frame when characters are appended. For a remote
  command that length does not cover the data characters, which the parser reads all
  the same: \<^verbatim>\<open>r1231A\<close> has the 5 characters of a standard remote command and one
  more, and parses with the data byte 0x0A; with \<^verbatim>\<open>Z\<close> appended the parser raises
  "Invalid data byte at position 0".
\<close>

theorem parseFrame_remote_trailing_changes_result:
  "parseFrame ''r1231A'' =
     Inr \<lparr>id_num = 0x123, dlc = 1, timestamp = None, data = [0x0A],
        is_ext_id = False, is_remote = True, id_ext_id = Some False\<rparr>
   \<and> 1 + id_len False + 1 \<le> length ''r1231A''
   \<and> parseFrame (''r1231A'' @ ''Z'') = Inl (InvalidDataByte 0)"
  by (simp add: parse_eval id_len_def)

text \<open>
  C10, amended: let a command parse to a frame, let its first character select the
  identifier width \<open>id_len ext\<close>, and let the command have at least
  \<open>1 + id_len ext + 1 + 2 * dlc\<close> characters, the data characters counted for a
  remote command as for a data command. Then the command followed by any further
  characters parses to the same frame.
\<close>

theorem parseFrame_ignores_trailing:
  assumes ok: "parseFrame s = Inr fr"
    and ft: "frame_type s = Inr (ext, remote)"
    and len: "1 + id_len ext + 1 + 2 * dlc fr \<le> length s"
  shows "parseFrame (s @ extra) = Inr fr"
proof -
  from ok obtain ext' remote' i n bytes where
    ft0: "frame_type s = Inr (ext', remote')"
    and i: "Number (''0x'' @ substr s 1 (id_len ext')) = Some i"
    and n: "Number (substr s (1 + id_len ext') 1) = Some n"
    and le: "n \<le> 8"
    and b: "parse_data s ext' n 0 [] = Inr bytes"
    and fr: "fr = \<lparr>id_num = i, dlc = n, timestamp = None, data = bytes,
           is_ext_id = False, is_remote = remote', id_ext_id = Some ext'\<rparr>"
    by (rule parseFrame_InrE)
  from ft ft0 have e: "ext' = ext" "remote' = remote" by simp_all
  from fr have dn: "dlc fr = n" by simp
  from ft have ne: "s \<noteq> []" by (auto simp: frame_type_def)
  have ft': "frame_type (s @ extra) = Inr (ext, remote)"
    using ft ne by (simp add: frame_type_append)
  have idf: "substr (s @ extra) 1 (id_len ext) = substr s 1 (id_len ext)"
    using len by (intro substr_append) simp
  have dl: "substr (s @ extra) (1 + id_len ext) 1 = substr s (1 + id_len ext) 1"
    using len by (intro substr_append) simp
  have pd: "parse_data (s @ extra) ext n 0 [] = parse_data s ext n 0 []"
    using len dn by (intro parse_data_append) (simp add: data_pos_eq)
  have i': "Number (''0x'' @ substr (s @ extra) 1 (id_len ext)) = Some i"
    unfolding idf by (fact i [unfolded e])
  have n': "Number (substr (s @ extra) (1 + id_len ext) 1) = Some n"
    unfolding dl by (fact n [unfolded e])
  have b': "parse_data (s @ extra) ext n 0 [] = Inr bytes"
    unfolding pd by (fact b [unfolded e])
  show ?thesis
    unfolding fr e by (rule parseFrame_InrI [OF ft' i' n' le b'])
qed

theorem parseFrame_ignores_trailing_witness:
  "parseFrame ''t1232ABCD'' =
     Inr \<lparr>id_num = 0x123, dlc = 2, timestamp = None, data = [0xAB, 0xCD],
        is_ext_id = False, is_remote = False, id_ext_id = Some False\<rparr>
   \<and> frame_type ''t1232ABCD'' = Inr (False, False)
   \<and> 1 + id_len False + 1 + 2 * 2 \<le> length ''t1232ABCD''
   \<and> parseFrame (''t1232ABCD'' @ ''9 xyz'') =
     Inr \<lparr>id_num = 0x123, dlc = 2, timestamp = None, data = [0xAB, 0xCD],
        is_ext_id = False, is_remote = False, id_ext_id = Some False\<rparr>"
proof -
  have ok: "parseFrame ''t1232ABCD'' =
     Inr \<lparr>id_num = 0x123, dlc = 2, timestamp = None, data = [0xAB, 0xCD],
        is_ext_id = False, is_remote = False, id_ext_id = Some False\<rparr>"
    by (simp add: parse_eval)
  have ft: "frame_type ''t1232ABCD'' = Inr (False, False)"
    by (simp add: frame_type_def)
  have len: "1 + id_len False + 1 + 2 * dlc \<lparr>id_num = 0x123, dlc = 2, timestamp = None,
        data = [0xAB, 0xCD], is_ext_id = False, is_remote = False, id_ext_id = Some False\<rparr>
      \<le> length ''t1232ABCD''"
    by (simp add: id_len_def STD_ID_LEN_def)
  from parseFrame_ignores_trailing [OF ok ft len, of "''9 xyz''"] ok ft len
  show ?thesis by simp
qed

section \<open>Validation of the identifier\<close>

text \<open>
  C7, as the specification states it: a command with an incomplete identifier field, or
  with a character in it that is not a hexadecimal digit, or a standard command with an
  identifier above 0x7FF, fails with "Invalid ID value". The parser accepts the
  two-digit field of \<^verbatim>\<open>t12\<close> (id 0x12, and the missing DLC read as 0), the white
  space after the digits in \<^verbatim>\<open>t12 0\<close> (id 0x12) and the identifier 0x800 of
  \<^verbatim>\<open>t8000\<close>.
\<close>

theorem parseFrame_accepts_short_spaced_and_large_id:
  "parseFrame ''t12'' =
     Inr \<lparr>id_num = 0x12, dlc = 0, timestamp = None, data = [],
        is_ext_id = False, is_remote = False, id_ext_id = Some False\<rparr>
   \<and> parseFrame ''t12 0'' =
     Inr \<lparr>id_num = 0x12, dlc = 0, timestamp = None, data = [],
        is_ext_id = False, is_remote = False, id_ext_id = Some False\<rparr>
   \<and> parseFrame ''t8000'' =
     Inr \<lparr>id_num = 0x800, dlc = 0, timestamp = None, data = [],
        is_ext_id = False, is_remote = False, id_ext_id = Some False\<rparr>"
  by (simp add: parse_eval)

text \<open>
  C7, amended: for a command whose first character is one of the four type characters,
  the parser raises "Invalid ID value" exactly when the identifier field (the up to 3
  characters after the type character of a standard command, the up to 8 of an extended
  one), without the white space at its end, is empty or has a character that is not a
  hexadecimal digit. A field of fewer hexadecimal digits than its width, at the end of
  the command, is accepted, and the value is not compared with the 11-bit or 29-bit
  range.
\<close>

theorem parseFrame_InvalidIDValue_iff:
  assumes "frame_type str = Inr (ext, remote)"
  shows "parseFrame str = Inl InvalidIDValue \<longleftrightarrow>
           (let digits = trim_right (substr str 1 (id_len ext))
            in digits = [] \<or> \<not> list_all isHexDigit digits)"
  unfolding parseFrame_InvalidIDValue_Number [OF assms] Number_0x
  by (simp add: Let_def)

theorem parseFrame_InvalidIDValue_iff_witness:
  "frame_type ''tXYZ2ABCD'' = Inr (False, False)
   \<and> parseFrame ''tXYZ2ABCD'' = Inl InvalidIDValue
   \<and> frame_type ''T'' = Inr (True, False)
   \<and> parseFrame ''T'' = Inl InvalidIDValue
   \<and> frame_type ''t7FF0'' = Inr (False, False)
   \<and> parseFrame ''t7FF0'' \<noteq> Inl InvalidIDValue"
proof -
  have 1: "frame_type ''tXYZ2ABCD'' = Inr (False, False)"
    and 2: "frame_type ''T'' = Inr (True, False)"
    and 3: "frame_type ''t7FF0'' = Inr (False, False)"
    by (simp_all add: frame_type_def)
  show ?thesis
    using 1 2 3 parseFrame_InvalidIDValue_iff [OF 1] parseFrame_InvalidIDValue_iff [OF 2]
      parseFrame_InvalidIDValue_iff [OF 3]
    by (simp add: trim_right_def substr_def id_len_def STD_ID_LEN_def EXT_ID_LEN_def
          isWhiteSpace_def isHexDigit_def)
qed

section \<open>Validation of the DLC\<close>

text \<open>
  C8, as the specification states it: a missing or white-space DLC character fails with
  "Invalid DLC value" rather than being read as 0. \<^verbatim>\<open>Number("")\<close> and
  \<^verbatim>\<open>Number(" ")\<close> are 0, so the parser reads the DLC of \<^verbatim>\<open>t123\<close> and of
  \<^verbatim>\<open>t123\<close> followed by a space as 0 and returns a frame.
\<close>

theorem parseFrame_missing_or_blank_dlc_is_zero:
  "parseFrame ''t123'' =
     Inr \<lparr>id_num = 0x123, dlc = 0, timestamp = None, data = [],
        is_ext_id = False, is_remote = False, id_ext_id = Some False\<rparr>
   \<and> parseFrame ''t123 '' =
     Inr \<lparr>id_num = 0x123, dlc = 0, timestamp = None, data = [],
        is_ext_id = False, is_remote = False, id_ext_id = Some False\<rparr>"
  by (simp add: parse_eval)

text \<open>
  C8, amended: for a command with one of the four type characters whose identifier
  field is accepted, the parser raises "Invalid DLC value" exactly when the DLC
  character is present, is not white space and is not one of the digits 0 to 8; a
  missing or white-space DLC character is read as 0. In particular the commands
  \<^verbatim>\<open>t1230\<close> (DLC 0) and \<^verbatim>\<open>t12380102030405060708\<close> (DLC 8) parse to frames with
  0 and with 8 data bytes, and \<^verbatim>\<open>t1239\<close> (DLC 9) raises "Invalid DLC value".
\<close>

theorem parseFrame_InvalidDLCValue_iff:
  "(\<forall>str ext remote.
      frame_type str = Inr (ext, remote) \<longrightarrow> parseFrame str \<noteq> Inl InvalidIDValue \<longrightarrow>
      (parseFrame str = Inl InvalidDLCValue \<longleftrightarrow>
         (case substr str (1 + id_len ext) 1 of
            [] \<Rightarrow> False
          | d # _ \<Rightarrow> \<not> isWhiteSpace d \<and> \<not> (isDigit d \<and> digit_value d \<le> 8))))
   \<and> parseFrame ''t1230'' =
     Inr \<lparr>id_num = 0x123, dlc = 0, timestamp = None, data = [],
        is_ext_id = False, is_remote = False, id_ext_id = Some False\<rparr>
   \<and> parseFrame ''t12380102030405060708'' =
     Inr \<lparr>id_num = 0x123, dlc = 8, timestamp = None, data = [1, 2, 3, 4, 5, 6, 7, 8],
        is_ext_id = False, is_remote = False, id_ext_id = Some False\<rparr>
   \<and> parseFrame ''t1239'' = Inl InvalidDLCValue"
proof (intro conjI allI impI)
  fix str ext remote
  assume "frame_type str = Inr (ext, remote)" "parseFrame str \<noteq> Inl InvalidIDValue"
  then show "parseFrame str = Inl InvalidDLCValue \<longleftrightarrow>
         (case substr str (1 + id_len ext) 1 of
            [] \<Rightarrow> False
          | d # _ \<Rightarrow> \<not> isWhiteSpace d \<and> \<not> (isDigit d \<and> digit_value d \<le> 8))"
    by (rule parseFrame_InvalidDLCValue_char)
qed (simp_all add: parse_eval)

theorem parseFrame_InvalidDLCValue_iff_witness:
  "frame_type ''T0000012Ax'' = Inr (True, False)
   \<and> parseFrame ''T0000012Ax'' \<noteq> Inl InvalidIDValue
   \<and> parseFrame ''T0000012Ax'' = Inl InvalidDLCValue
   \<and> frame_type ''r7FF8'' = Inr (False, True)
   \<and> parseFrame ''r7FF8'' \<noteq> Inl InvalidIDValue
   \<and> parseFrame ''r7FF8'' \<noteq> Inl InvalidDLCValue"
proof -
  have 1: "frame_type ''T0000012Ax'' = Inr (True, False)"
    and 2: "frame_type ''r7FF8'' = Inr (False, True)"
    by (simp_all add: frame_type_def)
  have 3: "parseFrame ''T0000012Ax'' \<noteq> Inl InvalidIDValue"
    and 4: "parseFrame ''r7FF8'' \<noteq> Inl InvalidIDValue"
    by (simp_all add: parse_eval)
  from parseFrame_InvalidDLCValue_iff
  have g: "frame_type str = Inr (ext, remote) \<Longrightarrow> parseFrame str \<noteq> Inl InvalidIDValue \<Longrightarrow>
      (parseFrame str = Inl InvalidDLCValue \<longleftrightarrow>
         (case substr str (1 + id_len ext) 1 of
            [] \<Rightarrow> False
          | d # _ \<Rightarrow> \<not> isWhiteSpace d \<and> \<not> (isDigit d \<and> digit_value d \<le> 8)))"
    for str ext remote
    by blast
  show ?thesis
    using 1 2 3 4 g [OF 1 3] g [OF 2 4]
    by (simp add: substr_def id_len_def STD_ID_LEN_def EXT_ID_LEN_def
          isWhiteSpace_def isDigit_def digit_value_def)
qed

section \<open>Totality of the encoder\<close>

text \<open>
  C3, as the specification states it: encoding never raises on a frame that honours the
  invariants, where a remote frame may have no data, and for a remote frame no data bytes
  follow the DLC digit. The loop of \<^verbatim>\<open>_packFrame\<close> reads \<^verbatim>\<open>frame.data[i]\<close> for
  every \<open>i\<close> below \<^verbatim>\<open>dlc\<close> whatever the frame type: on the extended remote frame with
  dlc 1 and no data it raises a \<^verbatim>\<open>TypeError\<close>, and on the standard remote frame with
  dlc 2 and the data bytes 1 and 2 it writes the two bytes after the DLC digit.
\<close>

theorem packFrame_remote_raises_or_writes_data:
  "frame_inv \<lparr>id_num = 0x1ABCDEF, dlc = 1, timestamp = None, data = [],
      is_ext_id = True, is_remote = True, id_ext_id = None\<rparr>
   \<and> packFrame \<lparr>id_num = 0x1ABCDEF, dlc = 1, timestamp = None, data = [],
      is_ext_id = True, is_remote = True, id_ext_id = None\<rparr> = Inl TypeError
   \<and> frame_inv \<lparr>id_num = 0x123, dlc = 2, timestamp = None, data = [1, 2],
      is_ext_id = False, is_remote = True, id_ext_id = None\<rparr>
   \<and> packFrame \<lparr>id_num = 0x123, dlc = 2, timestamp = None, data = [1, 2],
      is_ext_id = False, is_remote = True, id_ext_id = None\<rparr> = Inr (''r12320102'' @ [CR])"
  by (simp add: frame_inv_def pack_eval)

text \<open>
  C3, amended: encoding returns a string, and never raises, for every frame whose data
  array has at least \<^verbatim>\<open>dlc\<close> elements, which every data frame honouring the
  invariants has. The string is the type character, the identifier field, the decimal
  DLC, two characters for each of the first \<^verbatim>\<open>dlc\<close> data bytes, for a remote frame
  as for a data frame, and the carriage return. For a frame with fewer than \<^verbatim>\<open>dlc\<close>
  data elements, which a remote frame may be, encoding raises a \<^verbatim>\<open>TypeError\<close>.
\<close>

theorem packFrame_total:
  "(dlc fr \<le> length (data fr) \<longrightarrow>
      packFrame fr =
        Inr (type_char (is_ext_id fr) (is_remote fr) # id_field (is_ext_id fr) (id_num fr)
             @ toString10 (dlc fr) @ concat (map byte_field (take (dlc fr) (data fr)))
             @ [CR]))
   \<and> (length (data fr) < dlc fr \<longrightarrow> packFrame fr = Inl TypeError)"
  using packFrame_ok [of fr] packFrame_err [of fr] by blast

theorem packFrame_total_witness:
  "dlc \<lparr>id_num = 0x123, dlc = 2, timestamp = None, data = [0xAB, 0xCD],
      is_ext_id = False, is_remote = False, id_ext_id = None\<rparr>
     \<le> length (data \<lparr>id_num = 0x123, dlc = 2, timestamp = None, data = [0xAB, 0xCD],
      is_ext_id = False, is_remote = False, id_ext_id = None\<rparr>)
   \<and> packFrame \<lparr>id_num = 0x123, dlc = 2, timestamp = None, data = [0xAB, 0xCD],
      is_ext_id = False, is_remote = False, id_ext_id = None\<rparr> = Inr (''t1232ABCD'' @ [CR])
   \<and> length (data \<lparr>id_num = 0x123, dlc = 5, timestamp = None, data = [],
      is_ext_id = False, is_remote = True, id_ext_id = None\<rparr>)
     < dlc \<lparr>id_num = 0x123, dlc = 5, timestamp = None, data = [],
      is_ext_id = False, is_remote = True, id_ext_id = None\<rparr>
   \<and> packFrame \<lparr>id_num = 0x123, dlc = 5, timestamp = None, data = [],
      is_ext_id = False, is_remote = True, id_ext_id = None\<rparr> = Inl TypeError"
  using
    packFrame_total [of "\<lparr>id_num = 0x123, dlc = 2, timestamp = None, data = [0xAB, 0xCD],
      is_ext_id = False, is_remote = False, id_ext_id = None\<rparr>"]
    packFrame_total [of "\<lparr>id_num = 0x123, dlc = 5, timestamp = None, data = [],
      is_ext_id = False, is_remote = True, id_ext_id = None\<rparr>"]
  by (simp add: type_char_def id_field_def byte_field_def id_len_def pack_eval)

section \<open>Chunk boundaries\<close>

text \<open>
  C5: let a command without a carriage return parse to a frame, and let the decoder's
  buffer be empty. Then the bytes of the command and its terminator, delivered over any
  number of receive events cut at any byte boundaries, raise no exception and leave the
  decoder in the state in which one receive event with all the bytes leaves it: the
  buffer empty again and exactly one more frame passed to the callback, the parsed frame
  with the reading of the clock as its timestamp.
\<close>

theorem chunk_boundary_invariance:
  assumes "CR \<notin> set cmd"
    and "parseFrame cmd = Inr fr"
    and "concat chunks = cmd @ [CR]"
    and "recv_str s = []"
  shows "receive_all now s chunks =
           ([], s\<lparr>recv_count := 0, recv_str := [],
                  delivered := delivered s @ [fr\<lparr>timestamp := Some (now (ticks s))\<rparr>],
                  ticks := ticks s + 1\<rparr>)
         \<and> serialRecvCallback now s (cmd @ [CR]) =
           (None, s\<lparr>recv_count := 0, recv_str := [],
                  delivered := delivered s @ [fr\<lparr>timestamp := Some (now (ticks s))\<rparr>],
                  ticks := ticks s + 1\<rparr>)"
proof -
  note one = recv_one_command [OF assms(1,2,4), of now]
  from one have "receive_all now s chunks =
           ([], s\<lparr>recv_count := 0, recv_str := [],
                  delivered := delivered s @ [fr\<lparr>timestamp := Some (now (ticks s))\<rparr>],
                  ticks := ticks s + 1\<rparr>)"
    by (intro receive_all_concat) (simp only: assms(3))
  with one show ?thesis by simp
qed

theorem chunk_boundary_invariance_witness:
  "CR \<notin> set ''t1232ABCD''
   \<and> parseFrame ''t1232ABCD'' =
       Inr \<lparr>id_num = 0x123, dlc = 2, timestamp = None, data = [0xAB, 0xCD],
          is_ext_id = False, is_remote = False, id_ext_id = Some False\<rparr>
   \<and> concat [''t12'', [], ''32AB'', ''CD'' @ [CR]] = ''t1232ABCD'' @ [CR]
   \<and> recv_str new_slcan = []
   \<and> receive_all (\<lambda>k. 1000 + k) new_slcan [''t12'', [], ''32AB'', ''CD'' @ [CR]] =
       ([], \<lparr>recv_count = 0, recv_str = [],
             delivered = [\<lparr>id_num = 0x123, dlc = 2, timestamp = Some 1000,
                            data = [0xAB, 0xCD], is_ext_id = False, is_remote = False,
                            id_ext_id = Some False\<rparr>],
             ticks = 1\<rparr>)"
proof -
  have 1: "CR \<notin> set ''t1232ABCD''" by (simp add: CR_def)
  have 2: "parseFrame ''t1232ABCD'' =
       Inr \<lparr>id_num = 0x123, dlc = 2, timestamp = None, data = [0xAB, 0xCD],
          is_ext_id = False, is_remote = False, id_ext_id = Some False\<rparr>"
    by (simp add: parse_eval)
  have 3: "concat [''t12'', [], ''32AB'', ''CD'' @ [CR]] = ''t1232ABCD'' @ [CR]" by simp
  have 4: "recv_str new_slcan = []" by (simp add: new_slcan_def)
  from chunk_boundary_invariance [OF 1 2 3 4, of "\<lambda>k. 1000 + k"] 1 2 3 4
  show ?thesis by (simp add: new_slcan_def)
qed

section \<open>A malformed command followed by a valid one\<close>

text \<open>
  C4, as the specification states it: when a malformed command is immediately followed
  by a valid command in the byte stream, the callback is invoked exactly once, for the
  valid command. When both arrive in one receive event, the exception of the parser
  leaves \<^verbatim>\<open>_serialRecvCallback\<close> at the terminator of the malformed command, the
  bytes of the valid command are never read, and the callback is not invoked at all.
\<close>

theorem parse_failure_drops_rest_of_call:
  "parseFrame ''t1239'' = Inl InvalidDLCValue
   \<and> parseFrame ''t1230'' =
       Inr \<lparr>id_num = 0x123, dlc = 0, timestamp = None, data = [],
          is_ext_id = False, is_remote = False, id_ext_id = Some False\<rparr>
   \<and> serialRecvCallback (\<lambda>k. 1000 + k) new_slcan (''t1239'' @ [CR] @ ''t1230'' @ [CR]) =
       (Some InvalidDLCValue, \<lparr>recv_count = 0, recv_str = [], delivered = [], ticks = 0\<rparr>)"
proof -
  have 1: "CR \<notin> set ''t1239''" by (simp add: CR_def)
  have 2: "parseFrame ''t1239'' = Inl InvalidDLCValue" by (simp add: parse_eval)
  have 3: "parseFrame ''t1230'' =
       Inr \<lparr>id_num = 0x123, dlc = 0, timestamp = None, data = [],
          is_ext_id = False, is_remote = False, id_ext_id = Some False\<rparr>"
    by (simp add: parse_eval)
  have 4: "parseFrame (recv_str new_slcan @ ''t1239'') = Inl InvalidDLCValue"
    using 2 by (simp add: new_slcan_def)
  from recv_command_bad [OF 1 4, of "\<lambda>k. 1000 + k" "''t1230'' @ [CR]"] 2 3
  show ?thesis by (simp add: new_slcan_def)
qed

text \<open>
  C4, amended: a malformed command makes the receive event that delivers its terminator
  end with the parser's exception, with the buffer cleared, no callback for the
  malformed command, and the bytes after that terminator in the same event dropped
  unread. When the malformed command and its terminator arrive in receive events of
  their own, and the valid command in later events, both cut at any byte boundaries,
  the parser's exception is raised once and the callback is invoked exactly once, for
  the valid command only.
\<close>

theorem parse_failure_aborts_receive_call:
  assumes "CR \<notin> set bad"
    and "parseFrame bad = Inl e"
    and "CR \<notin> set good"
    and "parseFrame good = Inr fr"
    and "concat chunks1 = bad @ [CR]"
    and "concat chunks2 = good @ [CR]"
    and "recv_str s = []"
  shows "serialRecvCallback now s (bad @ [CR] @ rest) =
           (Some e, s\<lparr>recv_count := 0, recv_str := []\<rparr>)
         \<and> receive_all now s (chunks1 @ chunks2) =
           ([e], s\<lparr>recv_count := 0, recv_str := [],
                   delivered := delivered s @ [fr\<lparr>timestamp := Some (now (ticks s))\<rparr>],
                   ticks := ticks s + 1\<rparr>)"
proof -
  from assms(2,7) have b: "parseFrame (recv_str s @ bad) = Inl e" by simp
  have 1: "serialRecvCallback now s (bad @ [CR] @ rest) =
           (Some e, s\<lparr>recv_count := 0, recv_str := []\<rparr>)"
    using recv_command_bad [OF assms(1) b, of now rest] by simp
  define s1 where "s1 = s\<lparr>recv_count := 0, recv_str := []\<rparr>"
  have e: "recv_str s1 = []" by (simp add: s1_def)
  have 2: "receive_all now s chunks1 = ([e], s1)"
    unfolding s1_def by (rule receive_all_bad_command [OF assms(1,5) b])
  have 3: "receive_all now s1 chunks2 =
           ([], s1\<lparr>recv_count := 0, recv_str := [],
                  delivered := delivered s1 @ [fr\<lparr>timestamp := Some (now (ticks s1))\<rparr>],
                  ticks := ticks s1 + 1\<rparr>)"
    using recv_one_command [OF assms(3,4) e, of now]
    by (intro receive_all_concat) (simp only: assms(6))
  have "receive_all now s (chunks1 @ chunks2) =
           ([e], s\<lparr>recv_count := 0, recv_str := [],
                   delivered := delivered s @ [fr\<lparr>timestamp := Some (now (ticks s))\<rparr>],
                   ticks := ticks s + 1\<rparr>)"
    using 2 3 by (simp add: receive_all_append s1_def)
  with 1 show ?thesis by simp
qed

theorem parse_failure_aborts_receive_call_witness:
  "CR \<notin> set ''tXYZ2ABCD''
   \<and> parseFrame ''tXYZ2ABCD'' = Inl InvalidIDValue
   \<and> CR \<notin> set ''t1232ABCD''
   \<and> parseFrame ''t1232ABCD'' =
       Inr \<lparr>id_num = 0x123, dlc = 2, timestamp = None, data = [0xAB, 0xCD],
          is_ext_id = False, is_remote = False, id_ext_id = Some False\<rparr>
   \<and> concat [''tXY'', ''Z2ABCD'' @ [CR]] = ''tXYZ2ABCD'' @ [CR]
   \<and> concat [''t1232'', ''ABCD'' @ [CR]] = ''t1232ABCD'' @ [CR]
   \<and> recv_str new_slcan = []
   \<and> serialRecvCallback (\<lambda>k. 1000 + k) new_slcan
        (''tXYZ2ABCD'' @ [CR] @ ''t1232ABCD'' @ [CR]) =
       (Some InvalidIDValue, \<lparr>recv_count = 0, recv_str = [], delivered = [], ticks = 0\<rparr>)
   \<and> receive_all (\<lambda>k. 1000 + k) new_slcan
        ([''tXY'', ''Z2ABCD'' @ [CR]] @ [''t1232'', ''ABCD'' @ [CR]]) =
       ([InvalidIDValue],
        \<lparr>recv_count = 0, recv_str = [],
           delivered = [\<lparr>id_num = 0x123, dlc = 2, timestamp = Some 1000,
                          data = [0xAB, 0xCD], is_ext_id = False, is_remote = False,
                          id_ext_id = Some False\<rparr>],
           ticks = 1\<rparr>)"
proof -
  have 1: "CR \<notin> set ''tXYZ2ABCD''" and 3: "CR \<notin> set ''t1232ABCD''"
    by (simp_all add: CR_def)
  have 2: "parseFrame ''tXYZ2ABCD'' = Inl InvalidIDValue" by (simp add: parse_eval)
  have 4: "parseFrame ''t1232ABCD'' =
       Inr \<lparr>id_num = 0x123, dlc = 2, timestamp = None, data = [0xAB, 0xCD],
          is_ext_id = False, is_remote = False, id_ext_id = Some False\<rparr>"
    by (simp add: parse_eval)
  have 5: "concat [''tXY'', ''Z2ABCD'' @ [CR]] = ''tXYZ2ABCD'' @ [CR]" by simp
  have 6: "concat [''t1232'', ''ABCD'' @ [CR]] = ''t1232ABCD'' @ [CR]" by simp
  have 7: "recv_str new_slcan = []" by (simp add: new_slcan_def)
  from parse_failure_aborts_receive_call
         [OF 1 2 3 4 5 6 7, of "\<lambda>k. 1000 + k" "''t1232ABCD'' @ [CR]"] 1 2 3 4 5 6 7
  show ?thesis by (simp add: new_slcan_def)
qed

section \<open>Round trip\<close>

text \<open>
  C1, as the specification states it: for every frame that satisfies the invariants,
  parsing the encoder's output yields the frame again, but for the timestamp. The
  standard remote frame with id 0x123, dlc 5 and no data satisfies the invariants, and
  the encoder raises a \<^verbatim>\<open>TypeError\<close> on it, so that there is nothing to parse.
\<close>

theorem roundtrip_remote_without_data_raises:
  "frame_inv \<lparr>id_num = 0x123, dlc = 5, timestamp = None, data = [],
      is_ext_id = False, is_remote = True, id_ext_id = None\<rparr>
   \<and> roundtrip \<lparr>id_num = 0x123, dlc = 5, timestamp = None, data = [],
      is_ext_id = False, is_remote = True, id_ext_id = None\<rparr> = Inl TypeError"
  by (simp add: frame_inv_def roundtrip_def pack_eval)

text \<open>
  C1, amended: for every frame that satisfies the invariants and has exactly \<^verbatim>\<open>dlc\<close>
  data bytes, a remote frame as well as a data frame, the encoder returns a command, and
  parsing that command, with its terminator or without it, yields a frame with the
  \<^verbatim>\<open>id\<close>, \<^verbatim>\<open>dlc\<close>, \<^verbatim>\<open>data\<close> and \<^verbatim>\<open>is_remote\<close> of the original and no
  timestamp; a new decoder that receives the command passes that frame to the callback,
  with the reading of the clock as its timestamp. Nothing is said here of
  \<^verbatim>\<open>is_ext_id\<close>.
\<close>

theorem roundtrip_fields:
  assumes "frame_inv fr" and "length (data fr) = dlc fr"
  shows "\<exists>wire fr'.
           packFrame fr = Inr wire \<and> parseFrame wire = Inr fr' \<and> roundtrip fr = Inr fr'
           \<and> serialRecvCallback now new_slcan wire =
               (None, \<lparr>recv_count = 0, recv_str = [],
                        delivered = [fr'\<lparr>timestamp := Some (now 0)\<rparr>], ticks = 1\<rparr>)
           \<and> id_num fr' = id_num fr \<and> dlc fr' = dlc fr \<and> data fr' = data fr
           \<and> is_remote fr' = is_remote fr \<and> timestamp fr' = None"
proof -
  from assms obtain cmd where
    1: "packFrame fr = Inr (cmd @ [CR])"
    and 2: "CR \<notin> set cmd"
    and 3: "parseFrame cmd =
       Inr \<lparr>id_num = id_num fr, dlc = dlc fr, timestamp = None, data = data fr,
          is_ext_id = False, is_remote = is_remote fr, id_ext_id = Some (is_ext_id fr)\<rparr>"
    and 4: "parseFrame (cmd @ [CR]) =
       Inr \<lparr>id_num = id_num fr, dlc = dlc fr, timestamp = None, data = data fr,
          is_ext_id = False, is_remote = is_remote fr, id_ext_id = Some (is_ext_id fr)\<rparr>"
    by (rule encoded_command)
  have e: "recv_str new_slcan = []" by (simp add: new_slcan_def)
  have 5: "roundtrip fr =
       Inr \<lparr>id_num = id_num fr, dlc = dlc fr, timestamp = None, data = data fr,
          is_ext_id = False, is_remote = is_remote fr, id_ext_id = Some (is_ext_id fr)\<rparr>"
    using 1 3 by (simp add: roundtrip_def)
  have 6: "serialRecvCallback now new_slcan (cmd @ [CR]) =
     (None, \<lparr>recv_count = 0, recv_str = [],
        delivered = [\<lparr>id_num = id_num fr, dlc = dlc fr, timestamp = None, data = data fr,
          is_ext_id = False, is_remote = is_remote fr,
          id_ext_id = Some (is_ext_id fr)\<rparr>\<lparr>timestamp := Some (now 0)\<rparr>],
        ticks = 1\<rparr>)"
    using recv_one_command [OF 2 3 e, of now] by (simp add: new_slcan_def)
  show ?thesis
    by (intro exI conjI, rule 1, rule 4, rule 5, rule 6) simp_all
qed

theorem roundtrip_fields_witness:
  "frame_inv \<lparr>id_num = 0x1ABCDEF, dlc = 2, timestamp = Some 7, data = [0xAB, 0xCD],
      is_ext_id = True, is_remote = True, id_ext_id = None\<rparr>
   \<and> length (data \<lparr>id_num = 0x1ABCDEF, dlc = 2, timestamp = Some 7, data = [0xAB, 0xCD],
      is_ext_id = True, is_remote = True, id_ext_id = None\<rparr>)
     = dlc \<lparr>id_num = 0x1ABCDEF, dlc = 2, timestamp = Some 7, data = [0xAB, 0xCD],
      is_ext_id = True, is_remote = True, id_ext_id = None\<rparr>
   \<and> (\<exists>wire fr'.
        packFrame \<lparr>id_num = 0x1ABCDEF, dlc = 2, timestamp = Some 7, data = [0xAB, 0xCD],
          is_ext_id = True, is_remote = True, id_ext_id = None\<rparr> = Inr wire
        \<and> parseFrame wire = Inr fr'
        \<and> roundtrip \<lparr>id_num = 0x1ABCDEF, dlc = 2, timestamp = Some 7, data = [0xAB, 0xCD],
          is_ext_id = True, is_remote = True, id_ext_id = None\<rparr> = Inr fr'
        \<and> serialRecvCallback (\<lambda>k. 1000 + k) new_slcan wire =
               (None, \<lparr>recv_count = 0, recv_str = [],
                        delivered = [fr'\<lparr>timestamp := Some 1000\<rparr>], ticks = 1\<rparr>)
        \<and> id_num fr' = 0x1ABCDEF \<and> dlc fr' = 2 \<and> data fr' = [0xAB, 0xCD]
        \<and> is_remote fr' = True \<and> timestamp fr' = None)"
proof -
  have 1: "frame_inv \<lparr>id_num = 0x1ABCDEF, dlc = 2, timestamp = Some 7, data = [0xAB, 0xCD],
      is_ext_id = True, is_remote = True, id_ext_id = None\<rparr>"
    by (simp add: frame_inv_def)
  have 2: "length (data \<lparr>id_num = 0x1ABCDEF, dlc = 2, timestamp = Some 7,
      data = [0xAB, 0xCD], is_ext_id = True, is_remote = True, id_ext_id = None\<rparr>)
     = dlc \<lparr>id_num = 0x1ABCDEF, dlc = 2, timestamp = Some 7, data = [0xAB, 0xCD],
      is_ext_id = True, is_remote = True, id_ext_id = None\<rparr>"
    by simp
  from roundtrip_fields [OF 1 2, of "\<lambda>k. 1000 + k"] 1 2 show ?thesis by simp
qed

end
